theory Spec2Isabelle
  imports Main
begin

section \<open>The segmented downloader of \<^verbatim>\<open>utils/segmentDownloader.py\<close>\<close>

text \<open>
  The class \<^verbatim>\<open>SegmentDownloader\<close> keeps two sets of segment numbers and talks to three
  things outside itself: the backend (over HTTP), the download directory, and the clock.
  The embedding makes all three explicit. What the backend answers is a parameter
  (\<open>environment\<close>); what the object and the disk hold is the \<open>state\<close>, passed through every
  method and returned updated. Each method of the class is one HOL function of the same
  name.
\<close>

subsection \<open>Configuration\<close>

text \<open>
  The fields of the dataclass \<^verbatim>\<open>Config\<close> that the methods read. \<^verbatim>\<open>main\<close> overwrites
  only the backend address, the download directory and the pool width, so these keep
  their defaults. Times are whole seconds (\<^verbatim>\<open>POLLING_INTERVAL\<close> is \<^verbatim>\<open>2.0\<close>).
\<close>

definition MAX_RETRIES :: nat where
  "MAX_RETRIES = 3"

definition POLLING_INTERVAL :: nat where
  "POLLING_INTERVAL = 2"

subsection \<open>The backend and the disk as the methods see them\<close>

type_synonym bytes = "nat list"

text \<open>
  The header \<^verbatim>\<open>content-length\<close> of a chunk response, as
  \<^verbatim>\<open>int(response.headers.get('content-length', 0))\<close> reads it: missing, an integer, or
  text on which \<^verbatim>\<open>int\<close> raises \<^verbatim>\<open>ValueError\<close>.
\<close>

datatype content_length = Absent | Numeric int | NonNumeric

text \<open>
  One answer to \<^verbatim>\<open>GET /stream?v=..&segment=n\<close> with \<^verbatim>\<open>stream=True\<close>:
  \<^item> \<open>RequestException\<close>: \<^verbatim>\<open>session.get\<close> or \<^verbatim>\<open>raise_for_status\<close> raises (timeout,
    connection failure, non-2xx status);
  \<^item> \<open>Streamed len chunks broken\<close>: the status line and headers arrive; \<^verbatim>\<open>iter_content\<close>
    then yields \<open>chunks\<close> in order and, when \<open>broken\<close>, raises a
    \<^verbatim>\<open>RequestException\<close> after the last of them (the connection drops during the body)
    instead of ending.
\<close>

datatype response = RequestException | Streamed content_length "bytes list" bool

text \<open>
  The exceptions that the methods let through to their callers.
\<close>

datatype error = AttributeError | ValueError | RecursionError | TypeError | PermissionError

text \<open>
  The Python value found under the key \<^verbatim>\<open>ready\<close> of a status body: \<^verbatim>\<open>None\<close> (JSON
  \<^verbatim>\<open>null\<close>), a number (or a boolean, which Python treats as one), or a list of
  integers, the type of the backend's interface. Strings, objects and lists of other
  things are outside the model.
\<close>

datatype py_value = PyNone | PyInt int | PyList "int list"

text \<open>
  One answer to \<^verbatim>\<open>GET /status?v=..\<close>, as far as \<^verbatim>\<open>get_segment_status\<close> tells answers
  apart:
  \<^item> \<open>StatusRequestException\<close>: the request or \<^verbatim>\<open>raise_for_status\<close> raises;
  \<^item> \<open>StatusJSONDecodeError\<close>: the body is not JSON;
  \<^item> \<open>StatusJsonRaises e\<close>: \<^verbatim>\<open>response.json()\<close> raises something that is neither of the
    two, such as \<^verbatim>\<open>ValueError\<close> on an integer literal longer than the interpreter
    converts, or \<^verbatim>\<open>RecursionError\<close> on deep nesting;
  \<^item> \<open>StatusNonObject\<close>: the body is JSON but not an object (\<^verbatim>\<open>response.json()\<close> returns
    a list, a string, a number, a boolean or \<^verbatim>\<open>None\<close>);
  \<^item> \<open>StatusObject ready totalSegments\<close>: the body is an object; \<open>ready\<close> is the value
    under the key \<^verbatim>\<open>ready\<close>, if the key is there, and \<open>totalSegments\<close> the integer
    under \<^verbatim>\<open>totalSegments\<close>, if the key is there and not \<^verbatim>\<open>null\<close>.
\<close>

datatype status_response =
    StatusRequestException
  | StatusJSONDecodeError
  | StatusJsonRaises error
  | StatusNonObject
  | StatusObject "py_value option" "int option"

text \<open>
  The operations on files and processes that the two paths of the combine step perform,
  each of which may raise: opening the output for writing; opening, reading and closing
  the file of a segment; writing the content of a segment to the output; closing the
  output when all is written; opening the manifest; writing and closing it; running the
  tool (\<^verbatim>\<open>subprocess.run\<close> itself raising, not the tool's exit status); and unlinking
  the manifest.
\<close>

datatype io_op =
    OpenOutput string
  | ReadSegment int
  | WriteOutput string int
  | CloseOutput string
  | OpenManifest
  | WriteManifest
  | RunTool
  | UnlinkManifest

text \<open>
  What \<^verbatim>\<open>subprocess.run(['ffmpeg', '-version'], check=True)\<close> does in \<^verbatim>\<open>_has_ffmpeg\<close>:
  it returns, it raises \<^verbatim>\<open>CalledProcessError\<close> or \<^verbatim>\<open>FileNotFoundError\<close>, which the
  method catches, or it raises something else, such as \<^verbatim>\<open>PermissionError\<close>, which the
  method does not catch.
\<close>

datatype tool_probe = ToolFound | ToolMissing | ToolProbeRaises

text \<open>
  The environment of one session. \<open>stream_reply env n k\<close> is the answer to the \<open>k\<close>-th request
  (counted from 0) for segment \<open>n\<close>; \<open>status_reply env k\<close> the answer to the \<open>k\<close>-th status
  query. \<open>set_order env S\<close> is the order in which the interpreter enumerates the set
  \<open>S\<close>. The remaining fields describe the machine the combine step runs on: which
  operations raise, what the probe for the tool does, and what \<^verbatim>\<open>ffmpeg -f concat\<close> does
  with a list of inputs when it runs: whether it exits with status 0, and the bytes it
  leaves at the output path, if any.
\<close>

record environment =
  stream_reply :: "int \<Rightarrow> nat \<Rightarrow> response"
  status_reply :: "nat \<Rightarrow> status_response"
  set_order :: "int set \<Rightarrow> int list"
  io_fails :: "io_op \<Rightarrow> bool"
  ffmpeg_probe :: tool_probe
  ffmpeg :: "bytes list \<Rightarrow> bool \<times> bytes option"

text \<open>
  The state: the two sets of the object, the files \<^verbatim>\<open>segment_<n>.m4a\<close> of the download
  directory (by segment number), the manifest \<^verbatim>\<open>segments_list.txt\<close>, the files at output
  paths, and a trace of what the session did to the outside: the chunk requests issued
  (oldest first), the number of status queries, every \<^verbatim>\<open>time.sleep\<close> (oldest first) and the
  clock, which the sleeps advance.
\<close>

record state =
  downloaded_segments :: "int set"
  failed_segments :: "int set"
  files :: "int \<rightharpoonup> bytes"
  segments_list :: "int list option"
  outputs :: "string \<rightharpoonup> bytes"
  requests :: "int list"
  probes :: nat
  sleeps :: "nat list"
  clock :: nat

text \<open>\<^verbatim>\<open>__init__\<close>: both sets empty; the directory is created if missing, so files of an
  earlier run may be there.\<close>

definition init :: "(int \<rightharpoonup> bytes) \<Rightarrow> state" where
  "init dir = \<lparr>downloaded_segments = {}, failed_segments = {}, files = dir,
     segments_list = None, outputs = Map.empty, requests = [], probes = 0,
     sleeps = [], clock = 0\<rparr>"

definition sleep :: "nat \<Rightarrow> state \<Rightarrow> state" where
  "sleep d st = st\<lparr>sleeps := sleeps st @ [d], clock := clock st + d\<rparr>"

subsection \<open>\<^verbatim>\<open>download_segment\<close>\<close>

text \<open>\<^verbatim>\<open>segment_file.exists() and segment_file.stat().st_size > 0\<close>. The download directory
  itself is taken to be accessible, so that the two calls return.\<close>

definition exists_nonempty :: "state \<Rightarrow> int \<Rightarrow> bool" where
  "exists_nonempty st segment_num =
     (case files st segment_num of None \<Rightarrow> False | Some content \<Rightarrow> length content > 0)"

text \<open>
  The \<^verbatim>\<open>try\<close> block of \<^verbatim>\<open>download_segment\<close>, from the request to \<^verbatim>\<open>return True\<close>. The
  result is \<open>True\<close> when the block reaches its \<^verbatim>\<open>return True\<close> and \<open>False\<close> when one of
  the two \<^verbatim>\<open>except\<close> clauses catches an exception. The request is logged first.
  \<^verbatim>\<open>open(segment_file, 'wb')\<close> creates or truncates the file, every non-empty chunk is
  appended, and the \<^verbatim>\<open>with\<close> block closes the file also when \<^verbatim>\<open>iter_content\<close> raises,
  so what was written stays. Only the path that finds the closed file empty unlinks it.
  The content type is only logged and the progress bar only drawn.
\<close>

definition try_download :: "environment \<Rightarrow> int \<Rightarrow> state \<Rightarrow> bool \<times> state" where
  "try_download env segment_num st =
     (let st1 = st\<lparr>requests := requests st @ [segment_num]\<rparr> in
      case stream_reply env segment_num (count_list (requests st) segment_num) of
        RequestException \<Rightarrow> (False, st1)
      | Streamed len chunks broken \<Rightarrow>
          (case len of
             NonNumeric \<Rightarrow> (False, st1)
           | _ \<Rightarrow>
              (let written = concat (filter (\<lambda>chunk. chunk \<noteq> []) chunks);
                   st2 = st1\<lparr>files := (files st1)(segment_num \<mapsto> written)\<rparr>
               in if broken then (False, st2)
                  else if length written = 0
                  then (False, st2\<lparr>files := (files st2)(segment_num := None)\<rparr>)
                  else (True, st2))))"

function download_segment :: "environment \<Rightarrow> int \<Rightarrow> nat \<Rightarrow> state \<Rightarrow> bool \<times> state" where
  "download_segment env segment_num retry_count st =
     (if exists_nonempty st segment_num
      then (True, st\<lparr>downloaded_segments := insert segment_num (downloaded_segments st)\<rparr>)
      else
        (case try_download env segment_num st of
           (True, st1) \<Rightarrow>
             (True, st1\<lparr>downloaded_segments := insert segment_num (downloaded_segments st1)\<rparr>)
         | (False, st1) \<Rightarrow>
             if retry_count < MAX_RETRIES
             then download_segment env segment_num (retry_count + 1) (sleep (2 ^ retry_count) st1)
             else (False, st1\<lparr>failed_segments := insert segment_num (failed_segments st1)\<rparr>)))"
  by pat_completeness auto
termination
  by (relation "measure (\<lambda>(env, segment_num, retry_count, st). MAX_RETRIES - retry_count)") auto

declare download_segment.simps [simp del]

subsection \<open>\<^verbatim>\<open>get_segment_status\<close>\<close>

text \<open>
  \<^verbatim>\<open>get_segment_status\<close> catches \<^verbatim>\<open>RequestException\<close> and \<^verbatim>\<open>json.JSONDecodeError\<close> and
  nothing else. Whatever else \<^verbatim>\<open>response.json()\<close> raises goes to the caller, and so does
  the \<^verbatim>\<open>AttributeError\<close> of \<^verbatim>\<open>data.get\<close> on a decoded body that is not a \<^verbatim>\<open>dict\<close>.
  \<^verbatim>\<open>data.get('ready', [])\<close> is the empty list only when the key is missing.
\<close>

record segment_status =
  status_ready :: py_value
  status_total :: "int option"

definition get_segment_status ::
  "environment \<Rightarrow> state \<Rightarrow> (error + segment_status) \<times> state" where
  "get_segment_status env st =
     (let st1 = st\<lparr>probes := probes st + 1\<rparr> in
      case status_reply env (probes st) of
        StatusRequestException \<Rightarrow>
          (Inr \<lparr>status_ready = PyList [], status_total = None\<rparr>, st1)
      | StatusJSONDecodeError \<Rightarrow>
          (Inr \<lparr>status_ready = PyList [], status_total = None\<rparr>, st1)
      | StatusJsonRaises e \<Rightarrow> (Inl e, st1)
      | StatusNonObject \<Rightarrow> (Inl AttributeError, st1)
      | StatusObject ready totalSegments \<Rightarrow>
          (Inr \<lparr>status_ready = (case ready of None \<Rightarrow> PyList [] | Some v \<Rightarrow> v),
                status_total = totalSegments\<rparr>, st1))"

subsection \<open>\<^verbatim>\<open>download_available_segments\<close>\<close>

text \<open>The comprehension that drops what is already in one of the two sets.\<close>

definition to_download :: "state \<Rightarrow> int list \<Rightarrow> int list" where
  "to_download st available_segments =
     filter (\<lambda>seg. seg \<notin> downloaded_segments st \<and> seg \<notin> failed_segments st)
       available_segments"

text \<open>The slice \<^verbatim>\<open>xs[:m]\<close>, where a negative \<open>m\<close> counts from the end.\<close>

definition slice_to :: "int \<Rightarrow> 'a list \<Rightarrow> 'a list" where
  "slice_to m xs = (if m < 0 then take (nat (int (length xs) + m)) xs else take (nat m) xs)"

text \<open>
  The pool. Every element of the list is submitted as \<^verbatim>\<open>download_segment(seg)\<close>, with
  the default \<^verbatim>\<open>retry_count = 0\<close>, and the segments whose call returned \<^verbatim>\<open>True\<close> are
  collected. The model runs the calls one after the other in the order of submission,
  which is what a pool of width 1 (\<^verbatim>\<open>--concurrent 1\<close>) does; the list is sorted before it
  is returned, so the order of completion does not show in the result. In a wider pool
  the calls overlap. Calls for different segments read and write different files,
  different elements of the two sets and different request counts, so for a list
  without repetition only the order of the traces depends on the width; for a list that
  names a segment twice the outcome depends on how the two calls interleave, and the
  model describes width 1 only.
\<close>

fun run_pool :: "environment \<Rightarrow> int list \<Rightarrow> state \<Rightarrow> int list \<times> state" where
  "run_pool env [] st = ([], st)"
| "run_pool env (seg # segs) st =
     (case download_segment env seg 0 st of
        (success, st1) \<Rightarrow>
          (case run_pool env segs st1 of
             (successful_downloads, st2) \<Rightarrow>
               (if success then seg # successful_downloads else successful_downloads, st2)))"

text \<open>
  \<^verbatim>\<open>list(self.downloaded_segments)\<close> enumerates a set in an order that Python leaves to
  the interpreter. The order is the environment's; a proposal that is not a listing of
  the set without repetition is replaced by the ascending one.
\<close>

definition list_of_set :: "environment \<Rightarrow> int set \<Rightarrow> int list" where
  "list_of_set env S =
     (let xs = set_order env S
      in if set xs = S \<and> distinct xs then xs else sorted_list_of_set S)"

text \<open>
  \<^verbatim>\<open>if not available_segments\<close> holds for \<^verbatim>\<open>None\<close>, for 0 and for the empty list. On any
  other number the comprehension \<^verbatim>\<open>for seg in available_segments\<close> raises
  \<^verbatim>\<open>TypeError\<close>. Nothing in the method catches an exception of the status query or of
  the comprehension.
\<close>

definition download_available_segments ::
  "environment \<Rightarrow> int option \<Rightarrow> state \<Rightarrow> (error + int list) \<times> state" where
  "download_available_segments env max_segments st =
     (case get_segment_status env st of
        (Inl e, st1) \<Rightarrow> (Inl e, st1)
      | (Inr status, st1) \<Rightarrow>
          (case status_ready status of
             PyNone \<Rightarrow> (Inr [], st1)
           | PyInt i \<Rightarrow> if i = 0 then (Inr [], st1) else (Inl TypeError, st1)
           | PyList available_segments \<Rightarrow>
               if available_segments = [] then (Inr [], st1)
               else
                 (let pending = to_download st1 available_segments;
                      pending = (case max_segments of
                                   None \<Rightarrow> pending
                                 | Some m \<Rightarrow> if m = 0 then pending else slice_to m pending)
                  in if pending = []
                     then (Inr (list_of_set env (downloaded_segments st1)), st1)
                     else (case run_pool env pending st1 of
                             (successful_downloads, st2) \<Rightarrow>
                               (Inr (sort successful_downloads), st2)))))"

subsection \<open>\<^verbatim>\<open>monitor_and_download\<close>\<close>

text \<open>
  The two local counters of the loop, and the three ways the loop ends: the \<^verbatim>\<open>break\<close>
  after "All segments downloaded according to backend", the \<^verbatim>\<open>break\<close> after "No new
  segments detected for extended period", and the loop condition on the elapsed time
  becoming false. \<^verbatim>\<open>KeyboardInterrupt\<close> is an asynchronous signal and is not modelled.
\<close>

record monitor_vars =
  last_segment_count :: nat
  no_new_segments_count :: nat

datatype stop_reason = AllComplete | Stagnant | TimedOut

text \<open>The \<^verbatim>\<open>if\<close>/\<^verbatim>\<open>else\<close> on \<^verbatim>\<open>len(downloaded) > last_segment_count\<close>.\<close>

definition count_progress :: "int list \<Rightarrow> monitor_vars \<Rightarrow> monitor_vars" where
  "count_progress downloaded vars =
     (if length downloaded > last_segment_count vars
      then \<lparr>last_segment_count = length downloaded, no_new_segments_count = 0\<rparr>
      else vars\<lparr>no_new_segments_count := no_new_segments_count vars + 1\<rparr>)"

text \<open>\<^verbatim>\<open>status.get('total') and len(self.downloaded_segments) >= status['total']\<close>: a total
  of 0 is falsy in Python, as is a missing one.\<close>

definition all_downloaded :: "segment_status \<Rightarrow> state \<Rightarrow> bool" where
  "all_downloaded status st =
     (case status_total status of
        None \<Rightarrow> False
      | Some t \<Rightarrow> t \<noteq> 0 \<and> int (card (downloaded_segments st)) \<ge> t)"

text \<open>
  One pass through the body of the \<^verbatim>\<open>while\<close> loop. The result is \<open>Some reason\<close> when the
  pass ends in a \<^verbatim>\<open>break\<close> and \<open>None\<close> when the loop goes on, which it does only after a
  sleep of \<^verbatim>\<open>POLLING_INTERVAL\<close>: at the end of the \<^verbatim>\<open>try\<close> block, or in the handler
  \<^verbatim>\<open>except Exception\<close> when one of the two calls raised. An exception from the first call
  leaves the counters as they were; one from the second comes after they were updated.
\<close>

definition monitor_cycle ::
  "environment \<Rightarrow> monitor_vars \<Rightarrow> state \<Rightarrow> stop_reason option \<times> monitor_vars \<times> state" where
  "monitor_cycle env vars st =
     (case download_available_segments env None st of
        (Inl e, st1) \<Rightarrow> (None, vars, sleep POLLING_INTERVAL st1)
      | (Inr downloaded, st1) \<Rightarrow>
          (let vars1 = count_progress downloaded vars in
           case get_segment_status env st1 of
             (Inl e, st2) \<Rightarrow> (None, vars1, sleep POLLING_INTERVAL st2)
           | (Inr status, st2) \<Rightarrow>
               if all_downloaded status st2 then (Some AllComplete, vars1, st2)
               else if no_new_segments_count vars1 \<ge> 10 then (Some Stagnant, vars1, st2)
               else (None, vars1, sleep POLLING_INTERVAL st2)))"

text \<open>No method ever turns the clock back, and a pass that does not break sleeps.\<close>

lemma clock_try_download: "clock (snd (try_download env n st)) = clock st"
  by (simp add: try_download_def Let_def split: response.splits content_length.splits)

lemma clock_download_segment: "clock st \<le> clock (snd (download_segment env n r st))"
proof (induction env n r st rule: download_segment.induct)
  case (1 env n r st)
  show ?case
  proof (cases "exists_nonempty st n")
    case True
    then show ?thesis by (simp add: download_segment.simps)
  next
    case False
    obtain ok st1 where t: "try_download env n st = (ok, st1)"
      by (cases "try_download env n st")
    have c1: "clock st1 = clock st"
      using clock_try_download [of env n st] t by simp
    show ?thesis
    proof (cases "\<not> ok \<and> r < MAX_RETRIES")
      case True
      then have "clock (sleep (2 ^ r) st1) \<le>
          clock (snd (download_segment env n (r + 1) (sleep (2 ^ r) st1)))"
        using "1.IH" [OF False t [symmetric]] by simp
      then show ?thesis
        using False t True c1 by (simp add: download_segment.simps [of env n r st] sleep_def)
    next
      case False
      then show ?thesis
        using \<open>\<not> exists_nonempty st n\<close> t c1
        by (cases ok) (auto simp: download_segment.simps [of env n r st])
    qed
  qed
qed

lemma clock_run_pool: "clock st \<le> clock (snd (run_pool env segs st))"
proof (induction segs arbitrary: st)
  case Nil
  then show ?case by simp
next
  case (Cons seg segs)
  obtain ok st1 where d: "download_segment env seg 0 st = (ok, st1)"
    by (cases "download_segment env seg 0 st")
  obtain succ st2 where p: "run_pool env segs st1 = (succ, st2)"
    by (cases "run_pool env segs st1")
  have "clock st \<le> clock st1"
    using clock_download_segment [of st env seg 0] d by simp
  moreover have "clock st1 \<le> clock st2"
    using Cons.IH [of st1] p by simp
  ultimately show ?case
    using d p by simp
qed

lemma clock_get_segment_status: "clock (snd (get_segment_status env st)) = clock st"
  by (simp add: get_segment_status_def Let_def split: status_response.splits)

lemma clock_download_available_segments:
  "clock st \<le> clock (snd (download_available_segments env m st))"
proof -
  obtain r st1 where g: "get_segment_status env st = (r, st1)"
    by (cases "get_segment_status env st")
  have c: "clock st1 = clock st"
    using clock_get_segment_status [of env st] g by simp
  have "run_pool env segs st1 = (succ, st2) \<Longrightarrow> clock st \<le> clock st2" for segs succ st2
    using clock_run_pool [of st1 env segs] c by simp
  then show ?thesis
    using g c
    by (auto simp: download_available_segments_def Let_def
        split: sum.splits prod.splits option.splits py_value.splits)
qed

lemma clock_monitor_cycle:
  assumes "monitor_cycle env vars st = (None, vars', st')"
  shows "clock st + POLLING_INTERVAL \<le> clock st'"
proof -
  obtain r st1 where d: "download_available_segments env None st = (r, st1)"
    by (cases "download_available_segments env None st")
  have c1: "clock st \<le> clock st1"
    using clock_download_available_segments [of st env None] d by simp
  obtain q st2 where g: "get_segment_status env st1 = (q, st2)"
    by (cases "get_segment_status env st1")
  have c2: "clock st2 = clock st1"
    using clock_get_segment_status [of env st1] g by simp
  show ?thesis
    using assms d g c1 c2
    by (auto simp: monitor_cycle_def Let_def sleep_def split: sum.splits if_splits)
qed

text \<open>
  The loop. \<open>start_time\<close> is the clock when the method was entered; the condition
  \<^verbatim>\<open>time.time() - start_time < max_wait_time\<close> is checked before every pass.
\<close>

function monitor_loop ::
  "environment \<Rightarrow> nat \<Rightarrow> int \<Rightarrow> monitor_vars \<Rightarrow> state \<Rightarrow> stop_reason \<times> monitor_vars \<times> state" where
  "monitor_loop env start_time max_wait_time vars st =
     (if int (clock st) - int start_time < max_wait_time
      then (case monitor_cycle env vars st of
              (Some reason, vars1, st1) \<Rightarrow> (reason, vars1, st1)
            | (None, vars1, st1) \<Rightarrow> monitor_loop env start_time max_wait_time vars1 st1)
      else (TimedOut, vars, st))"
  by pat_completeness auto
termination
proof (relation "measure (\<lambda>(env, start_time, max_wait_time, vars, st).
          nat (max_wait_time - (int (clock st) - int start_time)))", goal_cases)
  case 1
  then show ?case by simp
next
  case prems: 2
  from prems show ?case
    by (auto simp: POLLING_INTERVAL_def dest!: clock_monitor_cycle [OF sym])
qed

declare monitor_loop.simps [simp del]

text \<open>The method: the reason and the counters are returned next to the sorted list so
  that theorems can speak about them.\<close>

definition monitor_and_download ::
  "environment \<Rightarrow> int \<Rightarrow> state \<Rightarrow> (stop_reason \<times> monitor_vars) \<times> int list \<times> state" where
  "monitor_and_download env max_wait_time st =
     (case monitor_loop env (clock st) max_wait_time
             \<lparr>last_segment_count = 0, no_new_segments_count = 0\<rparr> st of
        (reason, vars, st1) \<Rightarrow>
          ((reason, vars), sorted_list_of_set (downloaded_segments st1), st1))"

subsection \<open>\<^verbatim>\<open>combine_segments\<close>\<close>

text \<open>
  The loop of \<^verbatim>\<open>_combine_simple\<close> over the segment files: each is opened, read whole
  and written to the output, which is open for writing. When the file is missing, the
  read raises or the write raises, the \<^verbatim>\<open>with\<close> block closes the output with what it
  holds from the segments before, and the handler \<^verbatim>\<open>except Exception\<close> returns
  \<^verbatim>\<open>False\<close>. It does so too when the loop is through and closing the output raises.
\<close>

fun copy_segments :: "environment \<Rightarrow> int list \<Rightarrow> string \<Rightarrow> state \<Rightarrow> bool \<times> state" where
  "copy_segments env [] output_file st =
     (if io_fails env (CloseOutput output_file) then (False, st) else (True, st))"
| "copy_segments env (seg # rest) output_file st =
     (case files st seg of
        None \<Rightarrow> (False, st)
      | Some content \<Rightarrow>
          if io_fails env (ReadSegment seg) then (False, st)
          else if io_fails env (WriteOutput output_file seg) then (False, st)
          else copy_segments env rest output_file
                 (st\<lparr>outputs := (outputs st)(output_file \<mapsto>
                    (case outputs st output_file of
                       None \<Rightarrow> content
                     | Some written \<Rightarrow> written @ content))\<rparr>))"

text \<open>\<^verbatim>\<open>_combine_simple\<close>: when \<^verbatim>\<open>open(output_file, 'wb')\<close> raises, nothing is created;
  otherwise it creates or truncates the output.\<close>

definition combine_simple :: "environment \<Rightarrow> int list \<Rightarrow> string \<Rightarrow> state \<Rightarrow> bool \<times> state" where
  "combine_simple env segment_files output_file st =
     (if io_fails env (OpenOutput output_file) then (False, st)
      else copy_segments env segment_files output_file
             (st\<lparr>outputs := (outputs st)(output_file \<mapsto> [])\<rparr>))"

text \<open>
  \<^verbatim>\<open>_combine_with_ffmpeg\<close>, all of it inside one \<^verbatim>\<open>try\<close> whose handlers return
  \<^verbatim>\<open>False\<close>: the manifest is opened and written, the tool runs on the listed files and
  leaves at the output path what it leaves, and the manifest is unlinked. With
  \<^verbatim>\<open>check=True\<close> a non-zero exit raises \<^verbatim>\<open>CalledProcessError\<close>. Whichever step raises,
  the steps after it are not taken: a manifest that was opened stays, also when the
  tool has succeeded and only \<^verbatim>\<open>list_file.unlink()\<close> raises.
\<close>

definition combine_with_ffmpeg ::
  "environment \<Rightarrow> int list \<Rightarrow> string \<Rightarrow> state \<Rightarrow> bool \<times> state" where
  "combine_with_ffmpeg env segment_files output_file st =
     (if io_fails env OpenManifest then (False, st)
      else if io_fails env WriteManifest then (False, st\<lparr>segments_list := Some []\<rparr>)
      else
        (let st1 = st\<lparr>segments_list := Some segment_files\<rparr> in
         if io_fails env RunTool then (False, st1)
         else
           (case ffmpeg env (List.map_filter (files st1) segment_files) of
              (exit_ok, left) \<Rightarrow>
                (let st2 = (case left of
                              None \<Rightarrow> st1
                            | Some content \<Rightarrow>
                                st1\<lparr>outputs := (outputs st1)(output_file \<mapsto> content)\<rparr>)
                 in if \<not> exit_ok then (False, st2)
                    else if io_fails env UnlinkManifest then (False, st2)
                    else (True, st2\<lparr>segments_list := None\<rparr>)))))"

text \<open>\<^verbatim>\<open>_has_ffmpeg\<close>: the two exceptions it catches mean that the tool is not there;
  any other reaches the caller.\<close>

definition has_ffmpeg :: "environment \<Rightarrow> error + bool" where
  "has_ffmpeg env =
     (case ffmpeg_probe env of
        ToolFound \<Rightarrow> Inr True
      | ToolMissing \<Rightarrow> Inr False
      | ToolProbeRaises \<Rightarrow> Inl PermissionError)"

text \<open>The list \<^verbatim>\<open>segment_files\<close> that \<^verbatim>\<open>combine_segments\<close> builds: the downloaded
  segment numbers in ascending order, those kept whose file exists.\<close>

definition segment_files :: "state \<Rightarrow> int list" where
  "segment_files st =
     filter (\<lambda>seg_num. files st seg_num \<noteq> None)
       (sorted_list_of_set (downloaded_segments st))"

text \<open>
  \<^verbatim>\<open>combine_segments\<close>. In \<^verbatim>\<open>use_ffmpeg and self._has_ffmpeg()\<close> the probe runs only
  when \<^verbatim>\<open>use_ffmpeg\<close> holds, and the method has no handler of its own, so an exception
  of the probe is an exception of the method.
\<close>

definition combine_segments ::
  "environment \<Rightarrow> string \<Rightarrow> bool \<Rightarrow> state \<Rightarrow> (error + bool) \<times> state" where
  "combine_segments env output_file use_ffmpeg st =
     (if downloaded_segments st = {} then (Inr False, st)
      else if segment_files st = [] then (Inr False, st)
      else
        (case (if use_ffmpeg then has_ffmpeg env else Inr False) of
           Inl e \<Rightarrow> (Inl e, st)
         | Inr with_tool \<Rightarrow>
             (case (if with_tool
                    then combine_with_ffmpeg env (segment_files st) output_file st
                    else combine_simple env (segment_files st) output_file st) of
                (ok, st1) \<Rightarrow> (Inr ok, st1))))"

subsection \<open>Notions the theorems use\<close>

text \<open>The list of ready segments that the status query of the next dispatch round
  returns (empty when the query raises or returns no list).\<close>

definition reported_ready :: "environment \<Rightarrow> state \<Rightarrow> int list" where
  "reported_ready env st =
     (case fst (get_segment_status env st) of
        Inl e \<Rightarrow> []
      | Inr status \<Rightarrow> (case status_ready status of PyList segs \<Rightarrow> segs | _ \<Rightarrow> []))"

text \<open>The ready list in one answer to the status query, as \<^verbatim>\<open>get_segment_status\<close>
  extracts it.\<close>

definition ready_list :: "status_response \<Rightarrow> int list" where
  "ready_list reply =
     (case reply of StatusObject (Some (PyList segs)) t \<Rightarrow> segs | _ \<Rightarrow> [])"

subsection \<open>Sessions to run the methods on\<close>

text \<open>
  A machine on which no operation raises, sets are enumerated in ascending order and
  \<^verbatim>\<open>ffmpeg\<close> is missing, talking to the backend given by the two functions.
\<close>

definition session :: "(int \<Rightarrow> nat \<Rightarrow> response) \<Rightarrow> (nat \<Rightarrow> status_response) \<Rightarrow> environment" where
  "session replies answers = \<lparr>stream_reply = replies, status_reply = answers,
     set_order = sorted_list_of_set, io_fails = (\<lambda>op. False), ffmpeg_probe = ToolMissing,
     ffmpeg = (\<lambda>inputs. (False, None))\<rparr>"

text \<open>A backend that refuses every request.\<close>

definition backend_down :: environment where
  "backend_down = session (\<lambda>n k. RequestException) (\<lambda>k. StatusRequestException)"

text \<open>
  A backend that serves every segment at the first request, one byte long, and reports
  segments 0 and 1 ready in its first \<open>j\<close> status answers and segments 0, 1 and 2 from
  then on, never with a total.
\<close>

definition backend_growing :: "nat \<Rightarrow> environment" where
  "backend_growing j = session (\<lambda>n k. Streamed Absent [[1]] False)
     (\<lambda>k. StatusObject (Some (PyList (if k < j then [0, 1] else [0, 1, 2]))) None)"

text \<open>
  A backend that refuses the first three requests for a segment and answers the fourth
  with a body announced as four bytes, of which two arrive before the connection drops.
\<close>

definition backend_dropping :: environment where
  "backend_dropping = session
     (\<lambda>n k. if k < 3 then RequestException else Streamed (Numeric 4) [[1, 2]] True)
     (\<lambda>k. StatusRequestException)"

text \<open>A backend on which every body, announced as four bytes, breaks off after two.\<close>

definition backend_dropping_first :: environment where
  "backend_dropping_first = session (\<lambda>n k. Streamed (Numeric 4) [[1, 2]] True)
     (\<lambda>k. StatusRequestException)"

text \<open>A backend whose status body is valid JSON but not an object, such as \<^verbatim>\<open>[]\<close>.\<close>

definition backend_bare_list :: environment where
  "backend_bare_list = session (\<lambda>n k. RequestException) (\<lambda>k. StatusNonObject)"

text \<open>
  A backend that lists segment 5 twice in its ready list, refuses the first four
  requests for a segment and serves it from the fifth on.
\<close>

definition backend_repeating :: environment where
  "backend_repeating = session
     (\<lambda>n k. if k < 4 then RequestException else Streamed Absent [[1]] False)
     (\<lambda>k. StatusObject (Some (PyList [5, 5])) None)"

text \<open>A backend that reports segments 0 and 1 ready, serves segment 0 and refuses every
  request for any other segment.\<close>

definition backend_half :: environment where
  "backend_half = session
     (\<lambda>n k. if n = 0 then Streamed Absent [[1]] False else RequestException)
     (\<lambda>k. StatusObject (Some (PyList [0, 1])) None)"

text \<open>A download directory holding segments 0 and 1, both recorded as downloaded; a
  machine on which the file of segment 1 cannot be read; and a machine on which the tool
  is found and concatenates its inputs, but the manifest cannot be unlinked.\<close>

definition two_segments :: state where
  "two_segments = (init [0 \<mapsto> [10], 1 \<mapsto> [11]])\<lparr>downloaded_segments := {0, 1}\<rparr>"



section \<open>Properties\<close>

subsection \<open>What one call of \<^verbatim>\<open>download_segment\<close> changes\<close>

lemma download_segment_existing:
  "exists_nonempty st n \<Longrightarrow>
     download_segment env n r st =
       (True, st\<lparr>downloaded_segments := insert n (downloaded_segments st)\<rparr>)"
  by (simp add: download_segment.simps)

lemma try_download_frame:
  assumes "try_download env n st = (ok, st1)"
  shows "requests st1 = requests st @ [n]"
    and "downloaded_segments st1 = downloaded_segments st"
    and "failed_segments st1 = failed_segments st"
    and "probes st1 = probes st"
    and "sleeps st1 = sleeps st"
    and "outputs st1 = outputs st"
    and "segments_list st1 = segments_list st"
    and "m \<noteq> n \<Longrightarrow> files st1 m = files st m"
  using assms
  by (auto simp: try_download_def Let_def split: response.splits content_length.splits if_splits)

lemma download_segment_effect:
  assumes "download_segment env n r st = (ok, st')"
  shows "(\<exists>k. requests st' = requests st @ replicate k n) \<and>
         (if ok
          then downloaded_segments st' = insert n (downloaded_segments st) \<and>
               failed_segments st' = failed_segments st
          else downloaded_segments st' = downloaded_segments st \<and>
               failed_segments st' = insert n (failed_segments st)) \<and>
         (\<forall>m. m \<noteq> n \<longrightarrow> files st' m = files st m) \<and>
         probes st' = probes st \<and> outputs st' = outputs st \<and>
         segments_list st' = segments_list st"
  using assms
proof (induction env n r st arbitrary: ok st' rule: download_segment.induct)
  case (1 env n r st)
  show ?case
  proof (cases "exists_nonempty st n")
    case True
    then show ?thesis
      using "1.prems" by (auto simp: download_segment_existing intro: exI [of _ 0])
  next
    case False
    obtain t st1 where t: "try_download env n st = (t, st1)"
      by (cases "try_download env n st")
    note fr = try_download_frame [OF t]
    show ?thesis
    proof (cases "\<not> t \<and> r < MAX_RETRIES")
      case True
      let ?s = "sleep (2 ^ r) st1"
      have rec: "download_segment env n (r + 1) ?s = (ok, st')"
        using "1.prems" False t True by (simp add: download_segment.simps [of env n r st])
      have ih: "(\<exists>k. requests st' = requests ?s @ replicate k n) \<and>
         (if ok
          then downloaded_segments st' = insert n (downloaded_segments ?s) \<and>
               failed_segments st' = failed_segments ?s
          else downloaded_segments st' = downloaded_segments ?s \<and>
               failed_segments st' = insert n (failed_segments ?s)) \<and>
         (\<forall>m. m \<noteq> n \<longrightarrow> files st' m = files ?s m) \<and>
         probes st' = probes ?s \<and> outputs st' = outputs ?s \<and>
         segments_list st' = segments_list ?s"
        using "1.IH" [OF False t [symmetric] _ _ rec] True by simp
      then obtain k where k: "requests st' = requests ?s @ replicate k n"
        by blast
      have "requests st' = requests st @ replicate (Suc k) n"
        using k fr(1) by (simp add: sleep_def replicate_app_Cons_same)
      then have "\<exists>k. requests st' = requests st @ replicate k n"
        by blast
      then show ?thesis
        using ih fr by (simp add: sleep_def)
    next
      case F2: False
      have "requests st1 = requests st @ replicate 1 n"
        using fr(1) by simp
      then have ex: "\<exists>k. requests st1 = requests st @ replicate k n"
        by blast
      show ?thesis
        using "1.prems" False t F2 fr(2-) ex
        by (cases t) (auto simp: download_segment.simps [of env n r st])
    qed
  qed
qed


lemma try_download_RequestException:
  "stream_reply env n (count_list (requests st) n) = RequestException \<Longrightarrow>
     try_download env n st = (False, st\<lparr>requests := requests st @ [n]\<rparr>)"
  by (simp add: try_download_def)

lemma download_segment_all_fail:
  shows "\<forall>k. stream_reply env n k = RequestException \<Longrightarrow>
         \<not> exists_nonempty st n \<Longrightarrow> r \<le> MAX_RETRIES \<Longrightarrow>
         download_segment env n r st = (ok, st') \<Longrightarrow>
         \<not> ok \<and>
         requests st' = requests st @ replicate (MAX_RETRIES - r + 1) n \<and>
         sleeps st' = sleeps st @ map (\<lambda>attempt. 2 ^ attempt) [r..<MAX_RETRIES] \<and>
         failed_segments st' = insert n (failed_segments st) \<and>
         downloaded_segments st' = downloaded_segments st \<and>
         files st' = files st"
proof (induction env n r st arbitrary: ok st' rule: download_segment.induct)
  case (1 env n r st)
  note fail = "1.prems"(1) and absent = "1.prems"(2)
  let ?st1 = "st\<lparr>requests := requests st @ [n]\<rparr>"
  have t: "try_download env n st = (False, ?st1)"
    using fail by (simp add: try_download_RequestException)
  show ?case
  proof (cases "r < MAX_RETRIES")
    case True
    let ?s = "sleep (2 ^ r) ?st1"
    have rec: "download_segment env n (r + 1) ?s = (ok, st')"
      using "1.prems"(4) absent t True by (simp add: download_segment.simps [of env n r st])
    have absent': "\<not> exists_nonempty ?s n"
      using absent by (simp add: exists_nonempty_def sleep_def)
    have ih: "\<not> ok \<and>
         requests st' = requests ?s @ replicate (MAX_RETRIES - (r + 1) + 1) n \<and>
         sleeps st' = sleeps ?s @ map (\<lambda>attempt. 2 ^ attempt) [r + 1..<MAX_RETRIES] \<and>
         failed_segments st' = insert n (failed_segments ?s) \<and>
         downloaded_segments st' = downloaded_segments ?s \<and>
         files st' = files ?s"
      using "1.IH" [OF absent t [symmetric] _ True fail absent' _ rec] True by simp
    have more: "MAX_RETRIES - r + 1 = Suc (MAX_RETRIES - (r + 1) + 1)"
      using True by simp
    have range: "[r..<MAX_RETRIES] = r # [r + 1..<MAX_RETRIES]"
      using True by (simp add: upt_conv_Cons)
    show ?thesis
      using ih unfolding more range by (simp add: sleep_def)
  next
    case False
    then have last: "MAX_RETRIES - r = 0" "[r..<MAX_RETRIES] = []"
      by simp_all
    have "download_segment env n r st =
        (False, ?st1\<lparr>failed_segments := insert n (failed_segments ?st1)\<rparr>)"
      using False absent t by (simp add: download_segment.simps [of env n r st])
    then show ?thesis
      using "1.prems"(4) last by auto
  qed
qed

lemma requests_grow:
  "\<not> exists_nonempty st n \<Longrightarrow>
     \<exists>more. requests (snd (download_segment env n r st)) = requests st @ n # more"
proof (induction env n r st rule: download_segment.induct)
  case (1 env n r st)
  obtain t st1 where t: "try_download env n st = (t, st1)"
    by (cases "try_download env n st")
  note fr = try_download_frame [OF t]
  obtain ok st' where d: "download_segment env n r st = (ok, st')"
    by (cases "download_segment env n r st")
  show ?case
  proof (cases "\<not> t \<and> r < MAX_RETRIES")
    case True
    have rec: "download_segment env n (r + 1) (sleep (2 ^ r) st1) = (ok, st')"
      using d "1.prems" t True by (simp add: download_segment.simps [of env n r st])
    obtain k where "requests st' = requests (sleep (2 ^ r) st1) @ replicate k n"
      using download_segment_effect [OF rec] by blast
    then have "requests st' = requests st @ n # replicate k n"
      using fr(1) by (simp add: sleep_def)
    then show ?thesis
      using d by simp
  next
    case False
    then have "requests st' = requests st @ n # []"
      using d "1.prems" t fr(1) by (cases t) (auto simp: download_segment.simps [of env n r st])
    then show ?thesis
      using d by simp
  qed
qed


lemma run_pool_effect:
  assumes "run_pool env segs st = (succ, st')"
  shows "(\<exists>new. requests st' = requests st @ new \<and> set new \<subseteq> set segs) \<and>
         set succ \<subseteq> set segs \<and>
         downloaded_segments st' = downloaded_segments st \<union> set succ \<and>
         failed_segments st \<subseteq> failed_segments st' \<and>
         failed_segments st' \<subseteq> failed_segments st \<union> set segs \<and>
         (distinct segs \<longrightarrow> failed_segments st' = failed_segments st \<union> (set segs - set succ)) \<and>
         (\<forall>m. m \<notin> set segs \<longrightarrow> files st' m = files st m) \<and>
         probes st' = probes st \<and> outputs st' = outputs st \<and>
         segments_list st' = segments_list st"
  using assms
proof (induction segs arbitrary: st succ st')
  case Nil
  then show ?case by simp
next
  case (Cons seg segs)
  obtain ok st1 where d: "download_segment env seg 0 st = (ok, st1)"
    by (cases "download_segment env seg 0 st")
  obtain succ1 st2 where p: "run_pool env segs st1 = (succ1, st2)"
    by (cases "run_pool env segs st1")
  have res: "succ = (if ok then seg # succ1 else succ1)" "st' = st2"
    using Cons.prems d p by simp_all
  note e1 = download_segment_effect [OF d]
  note e2 = Cons.IH [OF p]
  obtain k where k: "requests st1 = requests st @ replicate k seg"
    using e1 by blast
  obtain new where new: "requests st2 = requests st1 @ new" "set new \<subseteq> set segs"
    using e2 by blast
  have "requests st2 = requests st @ (replicate k seg @ new)"
    using k new(1) by simp
  moreover have "set (replicate k seg @ new) \<subseteq> set (seg # segs)"
    using new(2) by auto
  ultimately have req: "\<exists>new. requests st' = requests st @ new \<and> set new \<subseteq> set (seg # segs)"
    using res(2) by blast
  have sets: "set succ \<subseteq> set (seg # segs) \<and>
         downloaded_segments st' = downloaded_segments st \<union> set succ \<and>
         failed_segments st \<subseteq> failed_segments st' \<and>
         failed_segments st' \<subseteq> failed_segments st \<union> set (seg # segs)"
    using e1 e2 res by (cases ok) auto
  have dist: "distinct (seg # segs) \<longrightarrow>
         failed_segments st' = failed_segments st \<union> (set (seg # segs) - set succ)"
    using e1 e2 res by (cases ok) auto
  have rest: "(\<forall>m. m \<notin> set (seg # segs) \<longrightarrow> files st' m = files st m) \<and>
         probes st' = probes st \<and> outputs st' = outputs st \<and>
         segments_list st' = segments_list st"
    using e1 e2 res by auto
  show ?case
    using req sets dist rest by blast
qed

lemma get_segment_status_state:
  "snd (get_segment_status env st) = st\<lparr>probes := probes st + 1\<rparr>"
  by (simp add: get_segment_status_def Let_def split: status_response.splits)

lemma set_slice_to: "set (slice_to m xs) \<subseteq> set xs"
  by (auto simp: slice_to_def dest: in_set_takeD)

lemma distinct_slice_to: "distinct xs \<Longrightarrow> distinct (slice_to m xs)"
  by (simp add: slice_to_def)

lemma dispatch_effect:
  assumes "download_available_segments env m st = (r, st')"
  defines "fresh \<equiv> set (reported_ready env st) - downloaded_segments st - failed_segments st"
  shows "(\<exists>new. requests st' = requests st @ new \<and> set new \<subseteq> fresh) \<and>
         downloaded_segments st \<subseteq> downloaded_segments st' \<and>
         failed_segments st \<subseteq> failed_segments st' \<and>
         downloaded_segments st' \<subseteq> downloaded_segments st \<union> fresh \<and>
         failed_segments st' \<subseteq> failed_segments st \<union> fresh \<and>
         (\<forall>n. n \<notin> fresh \<longrightarrow> files st' n = files st n) \<and>
         probes st' = probes st + 1 \<and>
         (distinct (reported_ready env st) \<longrightarrow>
           downloaded_segments st \<inter> failed_segments st = {} \<longrightarrow>
           downloaded_segments st' \<inter> failed_segments st' = {})"
proof -
  obtain q st1 where g: "get_segment_status env st = (q, st1)"
    by (cases "get_segment_status env st")
  have st1: "st1 = st\<lparr>probes := probes st + 1\<rparr>"
    using get_segment_status_state [of env st] g by simp
  show ?thesis
  proof (cases q)
    case (Inl e)
    then have "st' = st1"
      using assms(1) g by (simp add: download_available_segments_def)
    then show ?thesis
      using st1 by auto
  next
    case (Inr status)
    define ready where "ready = reported_ready env st"
    define pending where "pending =
      (case m of None \<Rightarrow> to_download st1 ready
       | Some k \<Rightarrow> if k = 0 then to_download st1 ready
                   else slice_to k (to_download st1 ready))"
    have rr: "reported_ready env st = ready"
      by (simp add: ready_def)
    have shape: "status_ready status = PyList ready \<or>
        (ready = [] \<and> (\<forall>segs. status_ready status \<noteq> PyList segs))"
      using g Inr by (auto simp: ready_def reported_ready_def split: py_value.splits)
    have pend: "set pending \<subseteq> fresh"
      using set_slice_to [of _ "to_download st1 ready"]
      by (auto simp: pending_def fresh_def rr to_download_def st1 split: option.splits)
    have dpend: "distinct (reported_ready env st) \<Longrightarrow> distinct pending"
      by (auto simp: pending_def rr to_download_def distinct_slice_to split: option.splits)
    show ?thesis
    proof (cases "ready = [] \<or> pending = []")
      case True
      then have "st' = st1"
        using assms(1) g Inr shape
        by (auto simp: download_available_segments_def Let_def pending_def
            split: if_splits py_value.splits)
      then show ?thesis
        using st1 by auto
    next
      case False
      then have list: "status_ready status = PyList ready"
        using shape by auto
      obtain succ st2 where p: "run_pool env pending st1 = (succ, st2)"
        by (cases "run_pool env pending st1")
      have "st' = st2"
        using assms(1) g Inr False p list
        by (auto simp: download_available_segments_def Let_def pending_def split: if_splits)
      note e = run_pool_effect [OF p, unfolded \<open>st' = st2\<close> [symmetric]]
      have 1: "\<exists>new. requests st' = requests st @ new \<and> set new \<subseteq> fresh"
        using e pend st1 by auto
      have 2: "downloaded_segments st \<subseteq> downloaded_segments st'"
        using e st1 by auto
      have 3: "failed_segments st \<subseteq> failed_segments st'"
        using e st1 by auto
      have 4: "downloaded_segments st' \<subseteq> downloaded_segments st \<union> fresh"
        using e pend st1 by auto
      have 8: "failed_segments st' \<subseteq> failed_segments st \<union> fresh"
        using e pend st1 by auto
      have 5: "\<forall>n. n \<notin> fresh \<longrightarrow> files st' n = files st n"
        using e pend st1 by auto
      have 6: "probes st' = probes st + 1"
        using e st1 by auto
      have 7: "downloaded_segments st' \<inter> failed_segments st' = {}"
        if "distinct (reported_ready env st)"
          and "downloaded_segments st \<inter> failed_segments st = {}"
      proof -
        have "failed_segments st' = failed_segments st1 \<union> (set pending - set succ)"
          using e dpend [OF that(1)] by blast
        moreover have "downloaded_segments st' = downloaded_segments st1 \<union> set succ"
          using e by blast
        moreover have "set succ \<subseteq> set pending"
          using e by blast
        ultimately show ?thesis
          using pend that(2) st1 by (auto simp: fresh_def)
      qed
      show ?thesis
        using 1 2 3 4 5 6 7 8 by blast
    qed
  qed
qed

lemma count_list_append_fresh:
  "n \<notin> set new \<Longrightarrow> count_list (xs @ new) n = count_list xs n"
  by (induction xs) (simp_all add: count_list_0_iff)

lemma dispatch_failed_stays:
  assumes "n \<in> failed_segments st" and "download_available_segments env m st = (r, st')"
  shows "n \<in> failed_segments st' \<and> count_list (requests st') n = count_list (requests st) n"
proof -
  note e = dispatch_effect [OF assms(2)]
  obtain new where new: "requests st' = requests st @ new"
    "set new \<subseteq> set (reported_ready env st) - downloaded_segments st - failed_segments st"
    using e by blast
  have "n \<notin> set new"
    using new(2) assms(1) by auto
  then have "count_list (requests st') n = count_list (requests st) n"
    using new(1) by (simp add: count_list_append_fresh)
  moreover have "n \<in> failed_segments st'"
    using e assms(1) by blast
  ultimately show ?thesis by simp
qed

subsection \<open>The monitor loop keeps what every round keeps\<close>

lemma reported_ready_eq: "reported_ready env st = ready_list (status_reply env (probes st))"
  by (simp add: reported_ready_def get_segment_status_def ready_list_def Let_def
      split: status_response.splits option.splits py_value.splits)

lemma monitor_cycle_preserves:
  assumes round: "\<And>s r s'. P s \<Longrightarrow> download_available_segments env None s = (r, s') \<Longrightarrow> P s'"
    and probe: "\<And>s. P s \<Longrightarrow> P (s\<lparr>probes := probes s + 1\<rparr>)"
    and nap: "\<And>s d. P s \<Longrightarrow> P (sleep d s)"
    and "P st" and "monitor_cycle env vars st = (b, vars', st')"
  shows "P st'"
proof -
  obtain r st1 where d: "download_available_segments env None st = (r, st1)"
    by (cases "download_available_segments env None st")
  have p1: "P st1"
    using round [OF assms(4) d] .
  obtain q st2 where g: "get_segment_status env st1 = (q, st2)"
    by (cases "get_segment_status env st1")
  have "st2 = st1\<lparr>probes := probes st1 + 1\<rparr>"
    using get_segment_status_state [of env st1] g by simp
  then have p2: "P st2"
    using probe [OF p1] by simp
  have "st' = sleep POLLING_INTERVAL st1 \<or> st' = st2 \<or> st' = sleep POLLING_INTERVAL st2"
    using assms(5) d g by (auto simp: monitor_cycle_def Let_def split: sum.splits if_splits)
  then show ?thesis
    using p1 p2 nap by auto
qed

lemma monitor_loop_preserves:
  assumes round: "\<And>s r s'. P s \<Longrightarrow> download_available_segments env None s = (r, s') \<Longrightarrow> P s'"
    and probe: "\<And>s. P s \<Longrightarrow> P (s\<lparr>probes := probes s + 1\<rparr>)"
    and nap: "\<And>s d. P s \<Longrightarrow> P (sleep d s)"
    and "P st" and "monitor_loop env start wait vars st = (reason, vars', st')"
  shows "P st'"
  using assms
proof (induction env start wait vars st rule: monitor_loop.induct)
  case (1 env start wait vars st)
  note round = "1.prems"(1) and probe = "1.prems"(2) and nap = "1.prems"(3)
  show ?case
  proof (cases "int (clock st) - int start < wait")
    case False
    then have "st' = st"
      using "1.prems"(5) by (simp add: monitor_loop.simps [of env start wait vars st])
    then show ?thesis
      using "1.prems"(4) by simp
  next
    case True
    obtain b vars1 st1 where c: "monitor_cycle env vars st = (b, vars1, st1)"
      by (cases "monitor_cycle env vars st")
    have p1: "P st1"
      using monitor_cycle_preserves [of P env, OF round probe nap "1.prems"(4) c] .
    show ?thesis
    proof (cases b)
      case (Some r)
      then have "st' = st1"
        using "1.prems"(5) True c by (simp add: monitor_loop.simps [of env start wait vars st])
      then show ?thesis
        using p1 by simp
    next
      case None
      then have rec: "monitor_loop env start wait vars1 st1 = (reason, vars', st')"
        using "1.prems"(5) True c by (simp add: monitor_loop.simps [of env start wait vars st])
      show ?thesis
        using "1.IH" [OF True c [symmetric] None refl round probe nap p1 rec] .
    qed
  qed
qed

lemma monitor_failed_stays:
  assumes "n \<in> failed_segments st"
    and "monitor_loop env start wait vars st = (reason, vars', st')"
  shows "n \<in> failed_segments st' \<and> count_list (requests st') n = count_list (requests st) n"
proof -
  define P :: "state \<Rightarrow> bool" where "P s \<longleftrightarrow>
      n \<in> failed_segments s \<and> count_list (requests s) n = count_list (requests st) n" for s
  have "P st'"
  proof (rule monitor_loop_preserves [of P env, OF _ _ _ _ assms(2)])
    show "P s'" if "P s" and "download_available_segments env None s = (q, s')" for s q s'
      using dispatch_failed_stays [OF _ that(2), of n] that(1) by (simp add: P_def)
    show "P (s\<lparr>probes := probes s + 1\<rparr>)" if "P s" for s
      using that by (simp add: P_def)
    show "P (sleep d s)" if "P s" for s d
      using that by (simp add: P_def sleep_def)
    show "P st"
      using assms(1) by (simp add: P_def)
  qed
  then show ?thesis
    by (simp add: P_def)
qed

subsection \<open>When the copy loop succeeds\<close>


lemma segment_files_exist: "seg \<in> set (segment_files st) \<Longrightarrow> files st seg \<noteq> None"
  by (simp add: segment_files_def)

subsection \<open>Unfolding the methods on concrete sessions\<close>

lemmas run_defs = download_available_segments_def get_segment_status_def to_download_def
  list_of_set_def
  download_segment.simps try_download_def exists_nonempty_def MAX_RETRIES_def sleep_def
  init_def Let_def

lemmas monitor_defs = monitor_and_download_def monitor_loop.simps monitor_cycle_def
  count_progress_def all_downloaded_def POLLING_INTERVAL_def

section \<open>The claims\<close>

subsection \<open>What a completed fetch leaves on disk\<close>

text \<open>
  Claim C1 says that a completed fetch leaves either a file of non-zero size and returns
  success, or no file and returns failure, never a partial file. The code does not keep
  this when the connection drops during the body: the file then holds what had arrived,
  and only the path that finds the file empty unlinks it. Against \<open>backend_dropping\<close> the
  fetch of segment 7 makes its four attempts, returns failure, records the segment as
  failed, and leaves on disk two bytes of a body announced as four.
\<close>

theorem fetch_leaves_partial_file:
  "fst (download_segment backend_dropping 7 0 (init Map.empty)) = False \<and>
   files (snd (download_segment backend_dropping 7 0 (init Map.empty))) 7 = Some [1, 2] \<and>
   7 \<in> failed_segments (snd (download_segment backend_dropping 7 0 (init Map.empty))) \<and>
   requests (snd (download_segment backend_dropping 7 0 (init Map.empty))) = [7, 7, 7, 7]"
  by (simp add: run_defs backend_dropping_def session_def)

text \<open>When the body breaks off on an earlier attempt, the retry finds the partial file
  non-empty, takes it for a finished download and returns success after one request.\<close>

lemma fetch_accepts_partial_file:
  "fst (download_segment backend_dropping_first 7 0 (init Map.empty)) = True \<and>
   files (snd (download_segment backend_dropping_first 7 0 (init Map.empty))) 7 = Some [1, 2] \<and>
   7 \<in> downloaded_segments (snd (download_segment backend_dropping_first 7 0 (init Map.empty))) \<and>
   requests (snd (download_segment backend_dropping_first 7 0 (init Map.empty))) = [7]"
  by (simp add: run_defs backend_dropping_first_def session_def)

subsection \<open>What a dispatch round returns\<close>

text \<open>
  Claim C2 says that a dispatch round returns the sorted list of all segments downloaded
  so far in the session. The code returns that list only when the round finds nothing
  left to fetch; a round that fetches returns the segments that succeeded in this round.
  In a session against \<open>backend_growing 1\<close> the first round returns \<open>[0, 1]\<close> and the
  second round returns \<open>[2]\<close>, while the downloaded set is then \<open>{0, 1, 2}\<close>.
\<close>

theorem dispatch_returns_round_only:
  "fst (download_available_segments (backend_growing 1) None (init Map.empty)) = Inr [0, 1] \<and>
   fst (download_available_segments (backend_growing 1) None
          (snd (download_available_segments (backend_growing 1) None (init Map.empty))))
     = Inr [2] \<and>
   downloaded_segments (snd (download_available_segments (backend_growing 1) None
          (snd (download_available_segments (backend_growing 1) None (init Map.empty)))))
     = {0, 1, 2}"
  by (simp add: run_defs backend_growing_def session_def insert_commute)

subsection \<open>The stagnation counter\<close>

text \<open>
  Claim C3 says that the stagnation counter is reset in every cycle in which a new
  segment is downloaded and incremented in every cycle in which none is. The loop
  compares the length of the list the dispatch round returns with the largest length
  seen so far, and that list is the round's own successes (see C2), so the counter
  does neither. Against \<open>backend_growing 2\<close>: after one cycle segments 0 and 1 are
  downloaded and the counter is 0; the second cycle downloads segment 2 and the counter
  goes up to 1; the third cycle downloads nothing and the counter is reset to 0. (The
  three runs differ only in the time allowed, so each is a prefix of the next.)
\<close>

theorem stagnation_counter_miscounts:
  "fst (monitor_and_download (backend_growing 2) 1 (init Map.empty))
     = (TimedOut, \<lparr>last_segment_count = 2, no_new_segments_count = 0\<rparr>) \<and>
   fst (snd (monitor_and_download (backend_growing 2) 1 (init Map.empty))) = [0, 1] \<and>
   fst (monitor_and_download (backend_growing 2) 3 (init Map.empty))
     = (TimedOut, \<lparr>last_segment_count = 2, no_new_segments_count = 1\<rparr>) \<and>
   fst (snd (monitor_and_download (backend_growing 2) 3 (init Map.empty))) = [0, 1, 2] \<and>
   fst (monitor_and_download (backend_growing 2) 5 (init Map.empty))
     = (TimedOut, \<lparr>last_segment_count = 3, no_new_segments_count = 0\<rparr>) \<and>
   fst (snd (monitor_and_download (backend_growing 2) 5 (init Map.empty))) = [0, 1, 2]"
  by (simp add: monitor_defs run_defs backend_growing_def session_def insert_commute)

text \<open>With a backend that never reports anything ready the counter does count every
  cycle, and the loop stops as stagnant after ten cycles, 18 seconds into the 300
  allowed.\<close>

lemma monitor_stops_stagnant:
  "fst (monitor_and_download backend_down 300 (init Map.empty))
     = (Stagnant, \<lparr>last_segment_count = 0, no_new_segments_count = 10\<rparr>) \<and>
   clock (snd (snd (monitor_and_download backend_down 300 (init Map.empty)))) = 18"
  by (simp add: monitor_defs run_defs backend_down_def session_def)

subsection \<open>The retry bound\<close>

text \<open>
  Claim C4 says that a fetch whose every request fails transiently is attempted
  \<open>MAX_RETRIES + 1\<close> times and then recorded as failed. The code does not keep this
  when the requests fail during the body. Against \<open>backend_dropping_first\<close>, where every
  body breaks off after two bytes, the fetch of segment 7 issues one request and sleeps
  once; the retry finds the partial file of the first attempt non-empty and returns
  success, and the segment is recorded as downloaded and not as failed.
\<close>

theorem retry_cut_short_by_partial_file:
  "fst (download_segment backend_dropping_first 7 0 (init Map.empty)) = True \<and>
   requests (snd (download_segment backend_dropping_first 7 0 (init Map.empty))) = [7] \<and>
   sleeps (snd (download_segment backend_dropping_first 7 0 (init Map.empty))) = [1] \<and>
   7 \<in> downloaded_segments (snd (download_segment backend_dropping_first 7 0 (init Map.empty))) \<and>
   7 \<notin> failed_segments (snd (download_segment backend_dropping_first 7 0 (init Map.empty)))"
  by (simp add: run_defs backend_dropping_first_def session_def)

text \<open>
  The bound does hold when every request fails before a body arrives and no file of
  non-zero size is on disk: the fetch issues exactly \<open>MAX_RETRIES + 1\<close> requests, sleeps
  \<open>2 ^ attempt\<close> seconds after attempt \<open>0, \<dots>, MAX_RETRIES - 1\<close>, returns failure and
  records the segment as failed, and a dispatch round or a monitor loop started
  afterwards leaves it failed and issues no further request for it.
\<close>

lemma retry_bound_before_body:
  assumes "\<forall>k. stream_reply env n k = RequestException"
    and "\<not> exists_nonempty st n"
    and "download_segment env n 0 st = (ok, st')"
  shows "\<not> ok \<and>
         requests st' = requests st @ replicate (MAX_RETRIES + 1) n \<and>
         sleeps st' = sleeps st @ map (\<lambda>attempt. 2 ^ attempt) [0..<MAX_RETRIES] \<and>
         n \<in> failed_segments st' \<and>
         (\<forall>m. n \<in> failed_segments (snd (download_available_segments env m st')) \<and>
              count_list (requests (snd (download_available_segments env m st'))) n =
                count_list (requests st') n) \<and>
         (\<forall>start wait vars.
              n \<in> failed_segments (snd (snd (monitor_loop env start wait vars st'))) \<and>
              count_list (requests (snd (snd (monitor_loop env start wait vars st')))) n =
                count_list (requests st') n)"
proof -
  note a = download_segment_all_fail [OF assms(1,2) _ assms(3)]
  have f: "n \<in> failed_segments st'"
    using a by simp
  have "n \<in> failed_segments (snd (download_available_segments env m st')) \<and>
        count_list (requests (snd (download_available_segments env m st'))) n =
          count_list (requests st') n" for m
    using dispatch_failed_stays [OF f, of env m]
    by (cases "download_available_segments env m st'") simp
  moreover have "n \<in> failed_segments (snd (snd (monitor_loop env start wait vars st'))) \<and>
        count_list (requests (snd (snd (monitor_loop env start wait vars st')))) n =
          count_list (requests st') n" for start wait vars
    using monitor_failed_stays [OF f, of env start wait vars]
    by (cases "monitor_loop env start wait vars st'") simp
  ultimately show ?thesis
    using a by simp
qed

lemma retry_bound_before_body_example:
  "fst (download_segment backend_down 7 0 (init Map.empty)) = False \<and>
   requests (snd (download_segment backend_down 7 0 (init Map.empty))) = [7, 7, 7, 7] \<and>
   sleeps (snd (download_segment backend_down 7 0 (init Map.empty))) = [1, 2, 4] \<and>
   7 \<in> failed_segments (snd (download_segment backend_down 7 0 (init Map.empty)))"
proof -
  obtain ok st' where d: "download_segment backend_down 7 0 (init Map.empty) = (ok, st')"
    by (cases "download_segment backend_down 7 0 (init Map.empty)")
  have 1: "\<forall>k. stream_reply backend_down 7 k = RequestException"
    by (simp add: backend_down_def session_def)
  have 2: "\<not> exists_nonempty (init Map.empty) 7"
    by (simp add: exists_nonempty_def init_def)
  have 3: "[0..<MAX_RETRIES] = [0, 1, 2]" "replicate (MAX_RETRIES + 1) (7::int) = [7, 7, 7, 7]"
    by (simp_all add: MAX_RETRIES_def upt_rec numeral_eq_Suc)
  show ?thesis
    using retry_bound_before_body [OF 1 2 d] d 3 by (simp add: init_def)
qed

text \<open>Within one round of a pool of width 1, a segment that the ready list names twice
  is fetched again after it was recorded as failed: the fifth request below follows the
  four of the failed fetch.\<close>

lemma failed_index_fetched_again_in_round:
  "requests (snd (download_available_segments backend_repeating None (init Map.empty)))
     = [5, 5, 5, 5, 5]"
  by (simp add: run_defs backend_repeating_def session_def)

subsection \<open>What a dispatch round fetches\<close>

text \<open>
  Claim C5. Let the backend report the ready set \<open>A \<union> B\<close>, where \<open>B\<close> is the set of
  segments already downloaded. A dispatch round then requests only segments of \<open>A - B\<close>,
  and none that is already recorded failed; the segments it adds to either set and the
  files it touches are in \<open>A - B\<close> too. So no fetch is issued for a segment that is
  already downloaded or already failed.
\<close>

theorem dispatch_only_fresh:
  assumes "download_available_segments env m st = (r, st')"
    and "set (reported_ready env st) = A \<union> B"
    and "B = downloaded_segments st"
  shows "(\<exists>new. requests st' = requests st @ new \<and> set new \<subseteq> A - B \<and>
            set new \<inter> failed_segments st = {}) \<and>
         downloaded_segments st' - downloaded_segments st \<subseteq> A - B - failed_segments st \<and>
         failed_segments st' - failed_segments st \<subseteq> A - B \<and>
         (\<forall>n. n \<notin> A - B - failed_segments st \<longrightarrow> files st' n = files st n)"
proof -
  note e = dispatch_effect [OF assms(1)]
  have fresh: "set (reported_ready env st) - downloaded_segments st - failed_segments st
      = A - B - failed_segments st"
    using assms(2,3) by auto
  obtain new where new: "requests st' = requests st @ new"
    "set new \<subseteq> A - B - failed_segments st"
    using e fresh by auto
  have 1: "\<exists>new. requests st' = requests st @ new \<and> set new \<subseteq> A - B \<and>
            set new \<inter> failed_segments st = {}"
    using new by blast
  have 2: "downloaded_segments st' - downloaded_segments st \<subseteq> A - B - failed_segments st"
    using e fresh by auto
  have 3: "failed_segments st' - failed_segments st \<subseteq> A - B"
    using e fresh by auto
  have 4: "\<forall>n. n \<notin> A - B - failed_segments st \<longrightarrow> files st' n = files st n"
    using e fresh by auto
  show ?thesis
    using 1 2 3 4 by blast
qed

theorem dispatch_only_fresh_witness:
  "set (reported_ready (backend_growing 0) ((init [0 \<mapsto> [9]])\<lparr>downloaded_segments := {0}\<rparr>))
     = {1, 2} \<union> {0} \<and>
   (\<exists>new. requests (snd (download_available_segments (backend_growing 0) None
             ((init [0 \<mapsto> [9]])\<lparr>downloaded_segments := {0}\<rparr>))) = new \<and>
          set new \<subseteq> {1, 2} - {0})"
proof -
  let ?st = "(init [0 \<mapsto> [9]])\<lparr>downloaded_segments := {0}\<rparr>"
  obtain r st' where d: "download_available_segments (backend_growing 0) None ?st = (r, st')"
    by (cases "download_available_segments (backend_growing 0) None ?st")
  have a: "set (reported_ready (backend_growing 0) ?st) = {1, 2} \<union> {0}"
    by (auto simp: reported_ready_def get_segment_status_def backend_growing_def session_def
        init_def)
  have b: "{0} = downloaded_segments ?st"
    by (simp add: init_def)
  show ?thesis
    using dispatch_only_fresh [OF d a b] a d by (simp add: init_def)
qed

subsection \<open>Idempotence of a fetch\<close>

text \<open>
  Claim C6. When the file of a segment is on disk with non-zero size, two calls of
  \<open>download_segment\<close> for it in a row both return success, neither issues a request,
  the segment is recorded as downloaded, and the second call changes nothing at all.
\<close>

theorem fetch_idempotent:
  assumes "exists_nonempty st n"
    and "download_segment env n r1 st = (ok1, st1)"
    and "download_segment env n r2 st1 = (ok2, st2)"
  shows "ok1 \<and> ok2 \<and> requests st1 = requests st \<and> requests st2 = requests st \<and>
         n \<in> downloaded_segments st1 \<and> st2 = st1"
proof -
  have 1: "ok1" "st1 = st\<lparr>downloaded_segments := insert n (downloaded_segments st)\<rparr>"
    using assms(1,2) by (simp_all add: download_segment_existing)
  then have "exists_nonempty st1 n"
    using assms(1) by (simp add: exists_nonempty_def)
  then have 2: "ok2" "st2 = st1\<lparr>downloaded_segments := insert n (downloaded_segments st1)\<rparr>"
    using assms(3) by (simp_all add: download_segment_existing)
  show ?thesis
    using 1 2 by simp
qed

theorem fetch_idempotent_witness:
  "exists_nonempty (init [7 \<mapsto> [42]]) 7 \<and>
   fst (download_segment backend_down 7 0 (init [7 \<mapsto> [42]])) \<and>
   fst (download_segment backend_down 7 0
          (snd (download_segment backend_down 7 0 (init [7 \<mapsto> [42]])))) \<and>
   requests (snd (download_segment backend_down 7 0
          (snd (download_segment backend_down 7 0 (init [7 \<mapsto> [42]]))))) = []"
proof -
  have 1: "exists_nonempty (init [7 \<mapsto> [42]]) 7"
    by (simp add: exists_nonempty_def init_def)
  obtain ok1 st1 where a: "download_segment backend_down 7 0 (init [7 \<mapsto> [42]]) = (ok1, st1)"
    by (cases "download_segment backend_down 7 0 (init [7 \<mapsto> [42]])")
  obtain ok2 st2 where b: "download_segment backend_down 7 0 st1 = (ok2, st2)"
    by (cases "download_segment backend_down 7 0 st1")
  show ?thesis
    using fetch_idempotent [OF 1 a b] 1 a b by (simp add: init_def)
qed

subsection \<open>Failures of the status query\<close>

text \<open>
  Claim C7 says that no failure of the status query reaches the caller: on a transport
  error or a malformed body the query returns an empty ready list and no total. The
  code does not keep this for a body that is valid JSON but not an object, such as
  \<^verbatim>\<open>[]\<close>: \<^verbatim>\<open>data.get\<close> raises \<^verbatim>\<open>AttributeError\<close>, which neither of the two
  \<^verbatim>\<open>except\<close> clauses catches, and the query raises to its caller.
\<close>

theorem probe_raises:
  "fst (get_segment_status backend_bare_list (init Map.empty)) = Inl AttributeError"
  by (simp add: get_segment_status_def backend_bare_list_def session_def init_def)

text \<open>The two clauses do absorb a request that raises and a body that is not JSON.\<close>

lemma probe_absorbs_transport:
  "status_reply env (probes st) = StatusRequestException \<or>
   status_reply env (probes st) = StatusJSONDecodeError \<Longrightarrow>
     fst (get_segment_status env st) = Inr \<lparr>status_ready = PyList [], status_total = None\<rparr>"
  by (auto simp: get_segment_status_def Let_def)

subsection \<open>Failures while combining\<close>




text \<open>On a machine on which no operation raises, the plain concatenation succeeds and
  the output holds the segments in ascending order.\<close>

lemma combine_concatenates:
  "fst (combine_segments backend_down ''out.m4a'' False two_segments) = Inr True \<and>
   outputs (snd (combine_segments backend_down ''out.m4a'' False two_segments)) ''out.m4a''
     = Some [10, 11]"
  by (simp add: combine_segments_def combine_simple_def segment_files_def
      backend_down_def session_def two_segments_def init_def)

subsection \<open>Downloaded and failed exclude each other\<close>

text \<open>
  Claim C9 says that no segment is ever recorded both as downloaded and as failed. The
  object keeps two sets, and the filter that keeps them apart is applied once, before
  the pool runs: when the ready list names a segment twice, both entries pass the filter
  and both are fetched. Against \<open>backend_repeating\<close>, with a pool of width 1, the first
  fetch of segment 5 uses up its four attempts and records it as failed, the second
  succeeds and records it as downloaded, and the segment is in both sets.
\<close>

theorem repeated_index_in_both_sets:
  "5 \<in> downloaded_segments (snd (download_available_segments backend_repeating None
          (init Map.empty))) \<and>
   5 \<in> failed_segments (snd (download_available_segments backend_repeating None
          (init Map.empty)))"
  by (simp add: run_defs backend_repeating_def session_def)

text \<open>
  In a session whose status answers never list a segment twice, starting with the two
  sets disjoint, the sets are disjoint after every dispatch round and when the monitor
  loop ends; both sets only grow, and no request is issued again for a segment that is
  in the failed set.
\<close>

lemma states_stay_exclusive:
  assumes "\<forall>k. distinct (ready_list (status_reply env k))"
    and "downloaded_segments st \<inter> failed_segments st = {}"
    and "download_available_segments env m st = (r, st1)"
    and "monitor_loop env start wait vars st = (reason, vars', st2)"
  shows "downloaded_segments st1 \<inter> failed_segments st1 = {} \<and>
         downloaded_segments st \<subseteq> downloaded_segments st1 \<and>
         failed_segments st \<subseteq> failed_segments st1 \<and>
         (\<forall>n \<in> failed_segments st. count_list (requests st1) n = count_list (requests st) n) \<and>
         downloaded_segments st2 \<inter> failed_segments st2 = {} \<and>
         downloaded_segments st \<subseteq> downloaded_segments st2 \<and>
         failed_segments st \<subseteq> failed_segments st2 \<and>
         (\<forall>n \<in> failed_segments st. count_list (requests st2) n = count_list (requests st) n)"
proof -
  define P :: "state \<Rightarrow> bool" where "P s \<longleftrightarrow>
      downloaded_segments s \<inter> failed_segments s = {} \<and>
      downloaded_segments st \<subseteq> downloaded_segments s \<and>
      failed_segments st \<subseteq> failed_segments s \<and>
      (\<forall>n \<in> failed_segments st. count_list (requests s) n = count_list (requests st) n)" for s
  have round: "P s'" if "P s" and "download_available_segments env k s = (q, s')" for s q s' k
  proof -
    note e = dispatch_effect [OF that(2)]
    have "distinct (reported_ready env s)"
      using assms(1) by (simp add: reported_ready_eq)
    then have "downloaded_segments s' \<inter> failed_segments s' = {}"
      using e that(1) by (simp add: P_def)
    moreover have "downloaded_segments st \<subseteq> downloaded_segments s'"
      "failed_segments st \<subseteq> failed_segments s'"
      using e that(1) by (auto simp: P_def)
    moreover have "count_list (requests s') n = count_list (requests st) n"
      if "n \<in> failed_segments st" for n
    proof -
      have "n \<in> failed_segments s"
        using that \<open>P s\<close> by (auto simp: P_def)
      then have "count_list (requests s') n = count_list (requests s) n"
        using dispatch_failed_stays [OF _ \<open>download_available_segments env k s = (q, s')\<close>]
        by simp
      then show ?thesis
        using that \<open>P s\<close> by (simp add: P_def)
    qed
    ultimately show ?thesis
      by (simp add: P_def)
  qed
  have start: "P st"
    using assms(2) by (simp add: P_def)
  have "P st1"
    using round [OF start assms(3)] .
  moreover have "P st2"
  proof (rule monitor_loop_preserves [of P env, OF _ _ _ start assms(4)])
    show "P s'" if "P s" and "download_available_segments env None s = (q, s')" for s q s'
      using round that .
    show "P (s\<lparr>probes := probes s + 1\<rparr>)" if "P s" for s
      using that by (simp add: P_def)
    show "P (sleep d s)" if "P s" for s d
      using that by (simp add: P_def sleep_def)
  qed
  ultimately show ?thesis
    by (simp add: P_def)
qed

text \<open>Against \<open>backend_half\<close> segment 0 is downloaded and segment 1 fails in the
  first cycle; two more cycles change neither set and issue no further request.\<close>

lemma states_stay_exclusive_example:
  "downloaded_segments (snd (snd (monitor_loop backend_half 0 12
       \<lparr>last_segment_count = 0, no_new_segments_count = 0\<rparr> (init Map.empty)))) = {0} \<and>
   failed_segments (snd (snd (monitor_loop backend_half 0 12
       \<lparr>last_segment_count = 0, no_new_segments_count = 0\<rparr> (init Map.empty)))) = {1} \<and>
   requests (snd (snd (monitor_loop backend_half 0 12
       \<lparr>last_segment_count = 0, no_new_segments_count = 0\<rparr> (init Map.empty))))
     = [0, 1, 1, 1, 1] \<and>
   probes (snd (snd (monitor_loop backend_half 0 12
       \<lparr>last_segment_count = 0, no_new_segments_count = 0\<rparr> (init Map.empty)))) = 6"
  by (simp add: monitor_defs run_defs backend_half_def session_def)

subsection \<open>The condition of the short circuit\<close>

text \<open>
  Claim C10. A fetch issues no request exactly when the file of the segment exists with
  size greater than 0. An existing file of zero bytes does not short-circuit: the next
  thing the fetch does is a request for the segment. An existing file of non-zero size,
  whatever it holds, makes the fetch record the segment as downloaded and return success
  with no other change of the state.
\<close>

theorem short_circuit_condition:
  "(requests (snd (download_segment env n r st)) = requests st
      \<longleftrightarrow> (\<exists>content. files st n = Some content \<and> length content > 0)) \<and>
   (files st n = Some [] \<longrightarrow>
      (\<exists>more. requests (snd (download_segment env n r st)) = requests st @ n # more)) \<and>
   ((\<exists>content. files st n = Some content \<and> length content > 0) \<longrightarrow>
      download_segment env n r st =
        (True, st\<lparr>downloaded_segments := insert n (downloaded_segments st)\<rparr>))"
proof -
  have ex: "exists_nonempty st n \<longleftrightarrow> (\<exists>content. files st n = Some content \<and> length content > 0)"
    by (auto simp: exists_nonempty_def split: option.splits)
  have a: "requests (snd (download_segment env n r st)) = requests st" if "exists_nonempty st n"
    using that by (simp add: download_segment_existing)
  have b: "requests (snd (download_segment env n r st)) \<noteq> requests st" if "\<not> exists_nonempty st n"
    using requests_grow [OF that, of env r] by auto
  have c: "\<exists>more. requests (snd (download_segment env n r st)) = requests st @ n # more"
    if "files st n = Some []"
    using requests_grow [of st n env r] that by (simp add: exists_nonempty_def)
  show ?thesis
    using a b c ex download_segment_existing [of st n env r] by blast
qed

theorem short_circuit_condition_witness:
  "download_segment backend_down 7 0 (init [7 \<mapsto> [42]]) =
     (True, (init [7 \<mapsto> [42]])\<lparr>downloaded_segments := {7}\<rparr>) \<and>
   (\<exists>more. requests (snd (download_segment backend_down 7 0 (init [7 \<mapsto> []]))) = 7 # more)"
  using short_circuit_condition [of backend_down 7 0 "init [7 \<mapsto> [42]]"]
    short_circuit_condition [of backend_down 7 0 "init [7 \<mapsto> []]"]
  by (simp add: init_def)

end
